theory Spec2Isabelle
  imports Main
begin

section \<open>Matrices: the capability, the dense matrix, the view\<close>

text \<open>
  The header \<^verbatim>\<open>include/gabp/matrix.hh\<close> declares an abstract class \<^verbatim>\<open>matrix<T, m, n>\<close>
  with the virtual methods \<^verbatim>\<open>get\<close> and \<^verbatim>\<open>set\<close>, and two realisations:
  \<^verbatim>\<open>basematrix<T, m, n>\<close>, which owns the array \<^verbatim>\<open>T m_elements[m][n]\<close>, and
  \<^verbatim>\<open>submatrix<T, m, n, M, N>\<close>, which holds a shared pointer \<^verbatim>\<open>m_parent\<close> to a
  \<^verbatim>\<open>matrix<T, M, N>\<close> and the offsets \<^verbatim>\<open>m_i\<close>, \<^verbatim>\<open>m_j\<close>.

  Dense matrices are mutable objects that views alias, so they live in a store: an address
  names a dense matrix and the store gives its array, one list per row. A view never
  changes after its construction; it is a value that names its parent. The template
  parameters \<^verbatim>\<open>M\<close>, \<^verbatim>\<open>N\<close> of a view are kept in the value, since its methods compute
  with them; the extents \<^verbatim>\<open>m\<close>, \<^verbatim>\<open>n\<close> of a matrix are used by no method and are
  arguments of the algorithms, as they are template arguments in the source. The element
  type \<^verbatim>\<open>T\<close> is a type variable with the operations an algorithm uses; the theorems
  about sums and products take it to be a semiring or a ring, where arithmetic is exact.

  What the source leaves undefined is outside the model. Both methods have the
  precondition \<^verbatim>\<open>i < m\<close>, \<^verbatim>\<open>j < n\<close> and check nothing: an access outside the array is
  \<open>!\<close> or a list update out of range in the model, and the theorems are to be read for
  arrays that have the extents of their types. A view over a parent with an extent \<open>0\<close>
  would divide by zero. The loop counters are \<^verbatim>\<open>int\<close> compared with \<^verbatim>\<open>size_t\<close> extents;
  the model counts in \<open>nat\<close>, which is what the loops do for extents up to \<^verbatim>\<open>INT_MAX\<close>.
  The members \<^verbatim>\<open>operator*\<close> and \<^verbatim>\<open>operator+\<close> are templates that nothing instantiates
  (they pass the pointer \<^verbatim>\<open>this\<close> for the reference \<^verbatim>\<open>left\<close>); the model has the free
  functions \<^verbatim>\<open>matmul\<close> and \<^verbatim>\<open>matadd\<close> they would call.
\<close>

type_synonym addr = nat

type_synonym 'a elements = "'a list list"

type_synonym 'a store = "addr \<Rightarrow> 'a elements"

text \<open>The fields of a view are \<^verbatim>\<open>m_parent\<close>, \<^verbatim>\<open>M\<close>, \<^verbatim>\<open>N\<close>, \<^verbatim>\<open>m_i\<close>, \<^verbatim>\<open>m_j\<close>, in this order.\<close>

datatype matrix = Basematrix addr | Submatrix matrix nat nat nat nat

text \<open>
  Indices and offsets are \<^verbatim>\<open>size_t\<close>: the sum \<^verbatim>\<open>i + m_i\<close> wraps around at \<open>2 ^ 64\<close>
  before the remainder is taken.
\<close>

definition size_t_add :: "nat \<Rightarrow> nat \<Rightarrow> nat" where
  "size_t_add a b = (a + b) mod 2 ^ 64"

fun get :: "'a store \<Rightarrow> matrix \<Rightarrow> nat \<Rightarrow> nat \<Rightarrow> 'a" where
  "get s (Basematrix a) i j = s a ! i ! j"
| "get s (Submatrix m_parent M N m_i m_j) i j =
     get s m_parent (size_t_add i m_i mod M) (size_t_add j m_j mod N)"

text \<open>\<^verbatim>\<open>set\<close> returns the value it stored; the model returns it beside the new store.\<close>

fun set_m :: "'a store \<Rightarrow> matrix \<Rightarrow> nat \<Rightarrow> nat \<Rightarrow> 'a \<Rightarrow> 'a store \<times> 'a" where
  "set_m s (Basematrix a) i j v = (s(a := (s a)[i := (s a ! i)[j := v]]), v)"
| "set_m s (Submatrix m_parent M N m_i m_j) i j v =
     set_m s m_parent (size_t_add i m_i mod M) (size_t_add j m_j mod N) v"

text \<open>
  The two constructors of a view: \<^verbatim>\<open>submatrix(mat)\<close> mirrors the parent with offsets
  \<open>0\<close>, \<^verbatim>\<open>submatrix(mat, i, j)\<close> takes the offsets.
\<close>

definition submatrix :: "nat \<Rightarrow> nat \<Rightarrow> matrix \<Rightarrow> matrix" where
  "submatrix M N mat = Submatrix mat M N 0 0"

definition submatrix_at :: "nat \<Rightarrow> nat \<Rightarrow> matrix \<Rightarrow> nat \<Rightarrow> nat \<Rightarrow> matrix" where
  "submatrix_at M N mat i j = Submatrix mat M N i j"

section \<open>Determinant\<close>

text \<open>
  \<^verbatim>\<open>det\<close> has two overloads: the one for \<^verbatim>\<open>matrix<T, 1, 1>\<close> returns the element, the
  general one runs \<^verbatim>\<open>for (int j = 0; j < n; ++j)\<close> over the state \<^verbatim>\<open>(acc, plus)\<close>, each
  round taking the determinant of the view
  \<^verbatim>\<open>submatrix<T, n - 1, n - 1, n, n>(mat, 1, j + 1)\<close>. The more specialised overload
  is chosen for \<open>n = 1\<close>, so the first equation comes first. The general template has no
  instance for \<open>n = 0\<close>; there the second equation is a loop of no rounds.
\<close>

fun det :: "nat \<Rightarrow> 'a::{zero,plus,minus,times} store \<Rightarrow> matrix \<Rightarrow> 'a" where
  "det (Suc 0) s mat = get s mat 0 0"
| "det n s mat =
     fst (fold (\<lambda>j (acc, plus).
            let sub = submatrix_at n n mat 1 (j + 1);
                sd = det (n - 1) s sub
            in (if plus then acc + get s mat 0 j * sd else acc - get s mat 0 j * sd, \<not> plus))
          [0..<n] (0, True))"

section \<open>Inverse\<close>

text \<open>
  \<^verbatim>\<open>inverse\<close> is documented to return \<^verbatim>\<open>true\<close> if \<^verbatim>\<open>src\<close> is singular and \<^verbatim>\<open>false\<close> if it is
  not; its body is \<^verbatim>\<open>return false;\<close>. The model returns the store beside the result.
\<close>

definition inverse_m :: "nat \<Rightarrow> 'a store \<Rightarrow> matrix \<Rightarrow> matrix \<Rightarrow> 'a store \<times> bool" where
  "inverse_m n s src dest = (s, False)"

text \<open>The documented convention of the result: \<^verbatim>\<open>true\<close> reports the singular case.\<close>

definition reports_singular :: "bool \<Rightarrow> bool" where
  "reports_singular result = result"

section \<open>Product and sum\<close>

text \<open>
  The three loops of \<^verbatim>\<open>matmul\<close> and the two of \<^verbatim>\<open>matadd\<close> run from \<open>0\<close> to the extent;
  every \<^verbatim>\<open>get\<close> reads the store as it is at that moment, every \<^verbatim>\<open>set\<close> changes it.
\<close>

definition matmul ::
  "nat \<Rightarrow> nat \<Rightarrow> nat \<Rightarrow> 'a::{zero,plus,times} store \<Rightarrow> matrix \<Rightarrow> matrix \<Rightarrow> matrix \<Rightarrow> 'a store" where
  "matmul m n o' s left right dest =
     fold (\<lambda>i. fold (\<lambda>j s.
             let a = fold (\<lambda>k a. a + get s left i k * get s right k j) [0..<n] 0
             in fst (set_m s dest i j a))
           [0..<o'])
       [0..<m] s"

definition matadd ::
  "nat \<Rightarrow> nat \<Rightarrow> 'a::plus store \<Rightarrow> matrix \<Rightarrow> matrix \<Rightarrow> matrix \<Rightarrow> 'a store" where
  "matadd m n s left right dest =
     fold (\<lambda>i. fold (\<lambda>j s. fst (set_m s dest i j (get s left i j + get s right i j))) [0..<n])
       [0..<m] s"

section \<open>Comparison\<close>

text \<open>
  \<^verbatim>\<open>operator==\<close> and \<^verbatim>\<open>cmppred\<close> leave both loops with \<^verbatim>\<open>return false\<close> at the first cell
  that fails. The inner loop of the model answers whether the row was passed; the outer
  loop stops at the first row that was not.
\<close>

function eq_cols :: "nat \<Rightarrow> 'a store \<Rightarrow> matrix \<Rightarrow> matrix \<Rightarrow> nat \<Rightarrow> nat \<Rightarrow> bool" where
  "eq_cols n s this right i j =
     (if j < n
      then (if get s this i j \<noteq> get s right i j then False
            else eq_cols n s this right i (Suc j))
      else True)"
  by pat_completeness auto
termination
  by (relation "measure (\<lambda>(n, s, this, right, i, j). n - j)") auto

function eq_rows :: "nat \<Rightarrow> nat \<Rightarrow> 'a store \<Rightarrow> matrix \<Rightarrow> matrix \<Rightarrow> nat \<Rightarrow> bool" where
  "eq_rows m n s this right i =
     (if i < m
      then (if eq_cols n s this right i 0 then eq_rows m n s this right (Suc i) else False)
      else True)"
  by pat_completeness auto
termination
  by (relation "measure (\<lambda>(m, n, s, this, right, i). m - i)") auto

definition matrix_eq :: "nat \<Rightarrow> nat \<Rightarrow> 'a store \<Rightarrow> matrix \<Rightarrow> matrix \<Rightarrow> bool" where
  "matrix_eq m n s this right = eq_rows m n s this right 0"

function cmppred_cols ::
  "nat \<Rightarrow> 'a store \<Rightarrow> matrix \<Rightarrow> matrix \<Rightarrow> ('a \<Rightarrow> 'a \<Rightarrow> bool) \<Rightarrow> nat \<Rightarrow> nat \<Rightarrow> bool" where
  "cmppred_cols n s this right pred i j =
     (if j < n
      then (if \<not> pred (get s this i j) (get s right i j) then False
            else cmppred_cols n s this right pred i (Suc j))
      else True)"
  by pat_completeness auto
termination
  by (relation "measure (\<lambda>(n, s, this, right, pred, i, j). n - j)") auto

function cmppred_rows ::
  "nat \<Rightarrow> nat \<Rightarrow> 'a store \<Rightarrow> matrix \<Rightarrow> matrix \<Rightarrow> ('a \<Rightarrow> 'a \<Rightarrow> bool) \<Rightarrow> nat \<Rightarrow> bool" where
  "cmppred_rows m n s this right pred i =
     (if i < m
      then (if cmppred_cols n s this right pred i 0
            then cmppred_rows m n s this right pred (Suc i) else False)
      else True)"
  by pat_completeness auto
termination
  by (relation "measure (\<lambda>(m, n, s, this, right, pred, i). m - i)") auto

definition cmppred ::
  "nat \<Rightarrow> nat \<Rightarrow> 'a store \<Rightarrow> matrix \<Rightarrow> matrix \<Rightarrow> ('a \<Rightarrow> 'a \<Rightarrow> bool) \<Rightarrow> bool" where
  "cmppred m n s this right pred = cmppred_rows m n s this right pred 0"

section \<open>A dense matrix from a view\<close>

text \<open>
  The constructor \<^verbatim>\<open>basematrix(const submatrix<T, m, n, M, N>& other)\<close> assigns
  \<^verbatim>\<open>this->m_elements[i][j] = other.get(i, j)\<close> cell by cell; \<open>this\<close> is the address of the
  matrix under construction, whose array exists with unspecified contents.
\<close>

definition basematrix_of_submatrix ::
  "nat \<Rightarrow> nat \<Rightarrow> 'a store \<Rightarrow> addr \<Rightarrow> matrix \<Rightarrow> 'a store" where
  "basematrix_of_submatrix m n s this other =
     fold (\<lambda>i. fold (\<lambda>j s. s(this := (s this)[i := (s this ! i)[j := get s other i j]]))
           [0..<n])
       [0..<m] s"

section \<open>Storage behind a matrix\<close>

text \<open>
  Every matrix leads, through its chain of parents, to one dense matrix: \<open>base\<close> is its
  address and \<open>cell\<close> the place in its array that the indices \<open>i\<close>, \<open>j\<close> reach. These
  two functions belong to the proofs; the source has no counterpart.
\<close>

fun base :: "matrix \<Rightarrow> addr" where
  "base (Basematrix a) = a"
| "base (Submatrix m_parent M N m_i m_j) = base m_parent"

fun cell :: "matrix \<Rightarrow> nat \<Rightarrow> nat \<Rightarrow> nat \<times> nat" where
  "cell (Basematrix a) i j = (i, j)"
| "cell (Submatrix m_parent M N m_i m_j) i j =
     cell m_parent (size_t_add i m_i mod M) (size_t_add j m_j mod N)"

definition cell_read :: "'a elements \<Rightarrow> nat \<times> nat \<Rightarrow> 'a" where
  "cell_read els c = els ! fst c ! snd c"

definition cell_write :: "'a elements \<Rightarrow> nat \<times> nat \<Rightarrow> 'a \<Rightarrow> 'a elements" where
  "cell_write els c v = els[fst c := (els ! fst c)[snd c := v]]"

text \<open>
  A well-formed \<open>m \<times> n\<close> matrix: a dense matrix whose array has \<open>m\<close> rows of \<open>n\<close>
  elements, or a view that is no larger than its well-formed parent (the data model's
  \<open>m \<le> M\<close>, \<open>n \<le> N\<close>, which the source does not enforce) and whose index sums stay
  below \<open>2 ^ 64\<close>. Distinct valid indices of a well-formed matrix reach distinct cells.
\<close>

fun well_formed :: "'a store \<Rightarrow> matrix \<Rightarrow> nat \<Rightarrow> nat \<Rightarrow> bool" where
  "well_formed s (Basematrix a) m n = (map length (s a) = replicate m n)"
| "well_formed s (Submatrix m_parent M N m_i m_j) m n =
     (well_formed s m_parent M N \<and> m \<le> M \<and> n \<le> N \<and> m + m_i \<le> 2 ^ 64 \<and> n + m_j \<le> 2 ^ 64)"

text \<open>One round of a loop that stores a computed value \<open>g s i j\<close> in cell \<open>(i, j)\<close> of \<open>d\<close>.\<close>

definition store_cell ::
  "('a store \<Rightarrow> nat \<Rightarrow> nat \<Rightarrow> 'a) \<Rightarrow> matrix \<Rightarrow> nat \<times> nat \<Rightarrow> 'a store \<Rightarrow> 'a store" where
  "store_cell g d p s = fst (set_m s d (fst p) (snd p) (g s (fst p) (snd p)))"

text \<open>
  Two entries overlap when \<^verbatim>\<open>get\<close> and \<^verbatim>\<open>set\<close> reach for them the same place of the same
  array: \<open>overlaps_at r i j d i' j'\<close> says so of the entry \<open>(i, j)\<close> of \<open>r\<close> and the entry
  \<open>(i', j')\<close> of \<open>d\<close>.
\<close>

definition overlaps_at :: "matrix \<Rightarrow> nat \<Rightarrow> nat \<Rightarrow> matrix \<Rightarrow> nat \<Rightarrow> nat \<Rightarrow> bool" where
  "overlaps_at r i j d i' j' \<longleftrightarrow> base r = base d \<and> cell r i j = cell d i' j'"


text \<open>No entry of the \<open>mr \<times> nr\<close> matrix \<open>r\<close> overlaps an entry of the \<open>m \<times> n\<close> matrix \<open>d\<close>.\<close>

definition no_overlap :: "matrix \<Rightarrow> nat \<Rightarrow> nat \<Rightarrow> matrix \<Rightarrow> nat \<Rightarrow> nat \<Rightarrow> bool" where
  "no_overlap r mr nr d m n \<longleftrightarrow>
     (\<forall>i<mr. \<forall>j<nr. \<forall>i'<m. \<forall>j'<n. \<not> overlaps_at r i j d i' j')"



text \<open>
  The store \<open>s'\<close> differs from \<open>s\<close> at most in the cells of the entries \<open>ps\<close> of \<open>d\<close>: what
  the rounds for \<open>ps\<close> of a loop that stores in \<open>d\<close> can have changed.
\<close>

definition written_within :: "'a store \<Rightarrow> 'a store \<Rightarrow> matrix \<Rightarrow> (nat \<times> nat) list \<Rightarrow> bool" where
  "written_within s s' d ps \<longleftrightarrow>
     (\<forall>a. a \<noteq> base d \<longrightarrow> s' a = s a) \<and>
     (\<forall>c. c \<notin> (\<lambda>p. cell d (fst p) (snd p)) ` set ps \<longrightarrow>
        cell_read (s' (base d)) c = cell_read (s (base d)) c)"

section \<open>The determinant of the specification\<close>

text \<open>
  The expansion along the first row as the specification words it: the minor deletes row
  \<open>0\<close> and column \<open>j\<close> and keeps the other columns in their order; the cofactor signs
  alternate, starting positive. It is defined on the array, to be compared with \<open>det\<close>.
\<close>

definition minor :: "'a elements \<Rightarrow> nat \<Rightarrow> 'a elements" where
  "minor A j = map (\<lambda>row. take j row @ drop (Suc j) row) (tl A)"

fun laplace_det :: "nat \<Rightarrow> 'a::comm_ring_1 elements \<Rightarrow> 'a" where
  "laplace_det (Suc 0) A = A ! 0 ! 0"
| "laplace_det n A =
     sum_list (map (\<lambda>j. (if even j then 1 else - 1) * (A ! 0 ! j) * laplace_det (n - 1) (minor A j))
                 [0..<n])"

section \<open>Example stores\<close>

definition example_store :: "int store" where
  "example_store =
     (\<lambda>a. [])(0 := [[1, 2], [3, 4]], 1 := [[0, 1], [1, 0]], 2 := [[2, 0], [1, 3]],
              3 := [[0, 0], [0, 0]], 4 := [[0, 0], [0, 0]], 5 := [[0, 0], [0, 0]],
              6 := [[0, 0], [0, 0]], 7 := [[5]], 8 := [[0, 1, 0], [1, 0, 0], [0, 0, 1]],
              9 := [[1, 2]], 10 := [[1, 2], [3, 4]], 11 := [[1], [2], [3]],
              12 := [[1, 2, 0, 0], [3, 4, 0, 0]], 13 := [[1, 2, 3]], 14 := [[5, 5]])"

text \<open>The matrices of the repository's tests.\<close>

definition test_store :: "int store" where
  "test_store =
     (\<lambda>a. [])(0 := [[40, 2, 98], [36, 15, 52], [52, 34, 77]],
              1 := [[37, 97, 77], [29, 3, 75], [92, 6, 14]],
              2 := [[77, 99, 175], [65, 18, 127], [144, 40, 91]],
              3 := [[0, 0, 0], [0, 0, 0], [0, 0, 0]],
              4 := [[1, 2, 3], [4, 5, 6], [7, 8, 9], [10, 11, 12]],
              5 := [[13, 14], [15, 16], [17, 18]],
              6 := [[94, 100], [229, 244], [364, 388], [499, 532]],
              7 := [[0, 0], [0, 0], [0, 0], [0, 0]],
              8 := [[7, 13], [18, 6]],
              9 := [[2]])"

section \<open>Reading and writing cells\<close>

lemma get_cell: "get s r i j = cell_read (s (base r)) (cell r i j)"
  by (induction r arbitrary: i j) (simp_all add: cell_read_def)

lemma set_m_cell: "set_m s r i j v = (s(base r := cell_write (s (base r)) (cell r i j) v), v)"
  by (induction r arbitrary: i j) (simp_all add: cell_write_def)

lemma read_write_other: "c \<noteq> c' \<Longrightarrow> cell_read (cell_write els c v) c' = cell_read els c'"
proof (cases "fst c' = fst c")
  case False
  then show ?thesis by (simp add: cell_read_def cell_write_def)
next
  case True
  assume "c \<noteq> c'"
  with True have ne: "snd c' \<noteq> snd c" by (auto simp: prod_eq_iff)
  show ?thesis
  proof (cases "fst c < length els")
    case True
    with \<open>fst c' = fst c\<close> ne show ?thesis by (simp add: cell_read_def cell_write_def)
  next
    case False
    then show ?thesis by (simp add: cell_read_def cell_write_def list_update_beyond)
  qed
qed

lemma read_write_same:
  "fst c < length els \<Longrightarrow> snd c < length (els ! fst c) \<Longrightarrow> cell_read (cell_write els c v) c = v"
  by (simp add: cell_read_def cell_write_def)

lemma shape_write: "map length (cell_write els c v) = map length els"
proof (cases "fst c < length els")
  case True
  then show ?thesis by (simp add: cell_write_def map_update list_update_same_conv)
next
  case False
  then show ?thesis by (simp add: cell_write_def list_update_beyond)
qed

lemma mod_shift_inj:
  fixes i i' c M :: nat
  assumes "i < M" "i' < M" "(i + c) mod M = (i' + c) mod M"
  shows "i = i'"
proof -
  have aux: "a = b" if "a \<le> b" "b < M" "(a + c) mod M = (b + c) mod M" for a b :: nat
  proof -
    from that have "M dvd (b + c) - (a + c)"
      by (metis add_le_cancel_right mod_eq_dvd_iff_nat)
    then have "M dvd b - a" by simp
    moreover have "b - a < M" using that by simp
    ultimately have "b - a = 0" using nat_dvd_not_less by blast
    with that show ?thesis by simp
  qed
  show ?thesis
  proof (cases "i \<le> i'")
    case True
    with assms aux show ?thesis by blast
  next
    case False
    then have "i' \<le> i" by simp
    with assms aux [of i' i] show ?thesis by simp
  qed
qed

lemma size_t_add_small: "a + b < 2 ^ 64 \<Longrightarrow> size_t_add a b = a + b"
  by (simp add: size_t_add_def)

text \<open>
  Valid indices of a well-formed matrix reach a cell inside the array, and distinct valid
  indices reach distinct cells.
\<close>

lemma well_formed_cell_in:
  "well_formed s r m n \<Longrightarrow> i < m \<Longrightarrow> j < n \<Longrightarrow>
   fst (cell r i j) < length (s (base r)) \<and> snd (cell r i j) < length (s (base r) ! fst (cell r i j))"
proof (induction r arbitrary: m n i j)
  case (Basematrix a)
  from Basematrix.prems have len: "length (s a) = m"
    by (metis length_map length_replicate well_formed.simps(1))
  from Basematrix.prems len have "length (s a ! i) = n"
    by (metis nth_map nth_replicate well_formed.simps(1))
  with len Basematrix.prems show ?case by simp
next
  case (Submatrix r M N m_i m_j)
  from Submatrix.prems have "0 < M" "0 < N" by auto
  then have "size_t_add i m_i mod M < M" "size_t_add j m_j mod N < N" by simp_all
  with Submatrix.IH [of M N] Submatrix.prems show ?case by simp
qed

lemma well_formed_cell_inj:
  "well_formed s r m n \<Longrightarrow> i < m \<Longrightarrow> j < n \<Longrightarrow> i' < m \<Longrightarrow> j' < n \<Longrightarrow>
   cell r i j = cell r i' j' \<Longrightarrow> i = i' \<and> j = j'"
proof (induction r arbitrary: m n i j i' j')
  case (Basematrix a)
  then show ?case by simp
next
  case (Submatrix r M N m_i m_j)
  from Submatrix.prems have pos: "0 < M" "0 < N" by auto
  from Submatrix.prems have sm:
    "size_t_add i m_i = i + m_i" "size_t_add i' m_i = i' + m_i"
    "size_t_add j m_j = j + m_j" "size_t_add j' m_j = j' + m_j"
    by (simp_all add: size_t_add_small)
  have "(i + m_i) mod M = (i' + m_i) mod M \<and> (j + m_j) mod N = (j' + m_j) mod N"
    using Submatrix.IH [of M N "(i + m_i) mod M" "(j + m_j) mod N" "(i' + m_i) mod M" "(j' + m_j) mod N"]
      Submatrix.prems pos sm by simp
  with Submatrix.prems show ?case
    using mod_shift_inj [of i M i' m_i] mod_shift_inj [of j N j' m_j] by simp
qed

lemma well_formed_shape:
  "(\<And>a. map length (s' a) = map length (s a)) \<Longrightarrow> well_formed s' r m n = well_formed s r m n"
  by (induction r arbitrary: m n) simp_all

lemma get_set_m_same:
  "well_formed s r m n \<Longrightarrow> i < m \<Longrightarrow> j < n \<Longrightarrow> get (fst (set_m s r i j v)) r i j = v"
  using well_formed_cell_in [of s r m n i j]
  by (simp add: get_cell set_m_cell read_write_same)

lemma get_set_m_other:
  "well_formed s r m n \<Longrightarrow> i < m \<Longrightarrow> j < n \<Longrightarrow> i' < m \<Longrightarrow> j' < n \<Longrightarrow> (i', j') \<noteq> (i, j) \<Longrightarrow>
   get (fst (set_m s r i j v)) r i' j' = get s r i' j'"
proof -
  assume "well_formed s r m n" "i < m" "j < n" "i' < m" "j' < n" "(i', j') \<noteq> (i, j)"
  with well_formed_cell_inj [of s r m n i j i' j'] have "cell r i j \<noteq> cell r i' j'"
    by auto
  then show ?thesis
    by (simp add: get_cell set_m_cell read_write_other)
qed

lemma get_set_m_apart:
  "base r' \<noteq> base r \<Longrightarrow> get (fst (set_m s r i j v)) r' i' j' = get s r' i' j'"
  by (simp add: get_cell set_m_cell)

lemma set_m_frame: "a \<noteq> base r \<Longrightarrow> fst (set_m s r i j v) a = s a"
  by (simp add: set_m_cell)

lemma set_m_shape: "map length (fst (set_m s r i j v) a) = map length (s a)"
  by (simp add: set_m_cell shape_write)

lemma nested_fold:
  "fold (\<lambda>i. fold (\<lambda>j. f (i, j)) ys) xs = fold f (List.product xs ys)"
  by (induction xs) (simp_all add: fold_map comp_def)

lemma store_cell_apply:
  "store_cell g d p s =
     s(base d := cell_write (s (base d)) (cell d (fst p) (snd p)) (g s (fst p) (snd p)))"
  by (simp add: store_cell_def set_m_cell)

lemma fold_store_cell_frame:
  "a \<noteq> base d \<Longrightarrow> fold (store_cell g d) ps s a = s a"
  by (induction ps arbitrary: s) (simp_all add: store_cell_apply)

lemma fold_store_cell_shape:
  "map length (fold (store_cell g d) ps s a) = map length (s a)"
  by (induction ps arbitrary: s) (simp_all add: store_cell_apply shape_write)

section \<open>The algorithms as loops over cells\<close>

lemma matadd_fold:
  "matadd m n s left right dest =
     fold (store_cell (\<lambda>s i j. get s left i j + get s right i j) dest)
       (List.product [0..<m] [0..<n]) s"
  by (simp add: matadd_def nested_fold [symmetric] store_cell_def [abs_def])

lemma matmul_fold:
  "matmul m n o' s left right dest =
     fold (store_cell (\<lambda>s i j. fold (\<lambda>k a. a + get s left i k * get s right k j) [0..<n] 0) dest)
       (List.product [0..<m] [0..<o']) s"
  by (simp add: matmul_def nested_fold [symmetric] store_cell_def [abs_def])

lemma basematrix_of_submatrix_fold:
  "basematrix_of_submatrix m n s this other =
     fold (store_cell (\<lambda>s i j. get s other i j) (Basematrix this))
       (List.product [0..<m] [0..<n]) s"
  by (simp add: basematrix_of_submatrix_def nested_fold [symmetric] store_cell_def [abs_def])

lemma fold_add_sum:
  fixes z :: "'a::comm_monoid_add"
  shows "fold (\<lambda>k a. a + f k) [0..<n] z = z + (\<Sum>k<n. f k)"
  by (induction n) (simp_all add: add.assoc)

lemma cells_product:
  "distinct (List.product [0..<m] [0..<n])"
  "set (List.product [0..<m] [0..<n]) \<subseteq> {0..<m} \<times> {0..<n}"
  "i < m \<Longrightarrow> j < n \<Longrightarrow> (i, j) \<in> set (List.product [0..<m] [0..<n])"
  by (simp_all add: distinct_product)

section \<open>Loops that store cell by cell\<close>

text \<open>
  What a loop over the entries \<open>ps\<close> of \<open>d\<close> leaves: the cells of other entries are as
  they were, and the entry of a round holds the value computed in that round, from the
  store that the rounds before it have left.
\<close>

lemma get_frame: "s' (base r) = s (base r) \<Longrightarrow> get s' r i j = get s r i j"
  by (simp add: get_cell)

lemma fold_store_cell_untouched:
  "(\<And>p. p \<in> set ps \<Longrightarrow> cell d (fst p) (snd p) \<noteq> c) \<Longrightarrow>
   cell_read (fold (store_cell g d) ps s (base d)) c = cell_read (s (base d)) c"
proof (induction ps arbitrary: s)
  case Nil
  then show ?case by simp
next
  case (Cons p ps)
  have "cell_read (fold (store_cell g d) ps (store_cell g d p s) (base d)) c =
        cell_read (store_cell g d p s (base d)) c"
    using Cons.prems by (intro Cons.IH) simp
  also have "\<dots> = cell_read (s (base d)) c"
    using Cons.prems [of p] by (simp add: store_cell_apply read_write_other)
  finally show ?case by simp
qed

lemma fold_store_cell_written_within: "written_within s (fold (store_cell g d) ps s) d ps"
  unfolding written_within_def
proof (intro conjI allI impI)
  fix a
  assume "a \<noteq> base d"
  then show "fold (store_cell g d) ps s a = s a"
    by (rule fold_store_cell_frame)
next
  fix c
  assume "c \<notin> (\<lambda>p. cell d (fst p) (snd p)) ` set ps"
  then have "cell d (fst p) (snd p) \<noteq> c" if "p \<in> set ps" for p
    using that by blast
  then show "cell_read (fold (store_cell g d) ps s (base d)) c = cell_read (s (base d)) c"
    by (rule fold_store_cell_untouched)
qed

lemma fold_store_cell_well_formed:
  "well_formed (fold (store_cell g d) ps s) r m n = well_formed s r m n"
  by (rule well_formed_shape) (rule fold_store_cell_shape)

lemma store_cell_get_same:
  assumes "well_formed s d m n" and "fst p < m" and "snd p < n"
  shows "get (store_cell g d p s) d (fst p) (snd p) = g s (fst p) (snd p)"
  unfolding store_cell_def using assms by (rule get_set_m_same)


lemma fold_store_cell_value:
  assumes wf: "well_formed s d m n"
    and ps: "distinct (before @ p # after)" "set (before @ p # after) \<subseteq> {0..<m} \<times> {0..<n}"
  shows "get (fold (store_cell g d) (before @ p # after) s) d (fst p) (snd p) =
         g (fold (store_cell g d) before s) (fst p) (snd p)"
proof -
  let ?sb = "fold (store_cell g d) before s"
  let ?sp = "store_cell g d p ?sb"
  from ps have p: "fst p < m" "snd p < n" by auto
  have wfb: "well_formed ?sb d m n"
    using wf by (simp only: fold_store_cell_well_formed)
  have apart: "cell d (fst q) (snd q) \<noteq> cell d (fst p) (snd p)" if "q \<in> set after" for q
  proof
    assume "cell d (fst q) (snd q) = cell d (fst p) (snd p)"
    moreover from that ps have "fst q < m" "snd q < n" by auto
    ultimately have "fst q = fst p \<and> snd q = snd p"
      using well_formed_cell_inj [OF wf, of "fst q" "snd q" "fst p" "snd p"] p by simp
    then have "q = p" by (simp add: prod_eq_iff)
    with that ps(1) show False by simp
  qed
  have "cell_read (fold (store_cell g d) after ?sp (base d)) (cell d (fst p) (snd p)) =
        cell_read (?sp (base d)) (cell d (fst p) (snd p))"
    using apart by (rule fold_store_cell_untouched)
  then have "get (fold (store_cell g d) after ?sp) d (fst p) (snd p) = get ?sp d (fst p) (snd p)"
    by (simp only: get_cell)
  also have "\<dots> = g ?sb (fst p) (snd p)"
    using wfb p by (rule store_cell_get_same)
  finally show ?thesis by simp
qed

lemma get_unwritten:
  assumes "written_within s s' d ps"
    and no: "\<And>q. q \<in> set ps \<Longrightarrow> \<not> overlaps_at r i j d (fst q) (snd q)"
  shows "get s' r i j = get s r i j"
proof (cases "base r = base d")
  case True
  have "cell r i j \<notin> (\<lambda>p. cell d (fst p) (snd p)) ` set ps"
    using no True by (auto simp: overlaps_at_def)
  with assms(1) have "cell_read (s' (base d)) (cell r i j) = cell_read (s (base d)) (cell r i j)"
    unfolding written_within_def by blast
  with True show ?thesis by (simp add: get_cell)
next
  case False
  with assms(1) have "s' (base r) = s (base r)"
    by (simp add: written_within_def)
  then show ?thesis by (rule get_frame)
qed

text \<open>
  When the value computed in a round is the one that the store at the call gives,
  whatever the rounds before it have stored, every entry ends with that value.
\<close>

lemma fold_store_cell_correct:
  assumes wf: "well_formed s d m n"
    and ps: "distinct ps" "set ps \<subseteq> {0..<m} \<times> {0..<n}"
    and stable: "\<And>before p after s'. ps = before @ p # after \<Longrightarrow> written_within s s' d before \<Longrightarrow>
        g s' (fst p) (snd p) = g s (fst p) (snd p)"
    and p: "p \<in> set ps"
  shows "get (fold (store_cell g d) ps s) d (fst p) (snd p) = g s (fst p) (snd p)"
proof -
  from p obtain before after where split: "ps = before @ p # after"
    by (auto dest: split_list)
  let ?sb = "fold (store_cell g d) before s"
  have "get (fold (store_cell g d) ps s) d (fst p) (snd p) = g ?sb (fst p) (snd p)"
    using wf ps unfolding split by (rule fold_store_cell_value)
  also have "\<dots> = g s (fst p) (snd p)"
    using split fold_store_cell_written_within by (rule stable)
  finally show ?thesis .
qed






lemma no_overlap_unwritten:
  assumes "no_overlap r mr nr d m n" and "written_within s s' d ps"
    and "set ps \<subseteq> {0..<m} \<times> {0..<n}" and "i < mr" and "j < nr"
  shows "get s' r i j = get s r i j"
  using assms(2)
proof (rule get_unwritten)
  fix q
  assume "q \<in> set ps"
  with assms(3) have "fst q < m" "snd q < n" by auto
  with assms(1,4,5) show "\<not> overlaps_at r i j d (fst q) (snd q)"
    by (simp add: no_overlap_def)
qed

section \<open>Comparison loops\<close>

declare eq_cols.simps [simp del] eq_rows.simps [simp del]
  cmppred_cols.simps [simp del] cmppred_rows.simps [simp del]

lemma all_from_Suc:
  assumes "P i"
  shows "(\<forall>i'. i \<le> i' \<and> i' < m \<longrightarrow> P i') \<longleftrightarrow> (\<forall>i'::nat. Suc i \<le> i' \<and> i' < m \<longrightarrow> P i')"
proof (intro iffI allI impI)
  fix i'
  assume "\<forall>i'. i \<le> i' \<and> i' < m \<longrightarrow> P i'" and "Suc i \<le> i' \<and> i' < m"
  then show "P i'" by (simp add: Suc_leD)
next
  fix i'
  assume a: "\<forall>i'. Suc i \<le> i' \<and> i' < m \<longrightarrow> P i'" and b: "i \<le> i' \<and> i' < m"
  show "P i'"
  proof (cases "i' = i")
    case True
    with assms show ?thesis by simp
  next
    case False
    with b have "Suc i \<le> i' \<and> i' < m" by simp
    with a show ?thesis by blast
  qed
qed

lemma eq_cols_iff:
  "eq_cols n s this right i j \<longleftrightarrow> (\<forall>j'. j \<le> j' \<and> j' < n \<longrightarrow> get s this i j' = get s right i j')"
proof (induction n s this right i j rule: eq_cols.induct)
  case (1 n s this right i j)
  show ?case
  proof (cases "j < n")
    case True
    show ?thesis
    proof (cases "get s this i j = get s right i j")
      case eq: True
      have "(\<forall>j'. j \<le> j' \<and> j' < n \<longrightarrow> get s this i j' = get s right i j') \<longleftrightarrow>
            (\<forall>j'. Suc j \<le> j' \<and> j' < n \<longrightarrow> get s this i j' = get s right i j')"
        using eq by (rule all_from_Suc)
      with "1.IH" True eq show ?thesis by (subst eq_cols.simps) simp
    next
      case False
      with True show ?thesis by (subst eq_cols.simps) auto
    qed
  next
    case False
    then show ?thesis by (subst eq_cols.simps) auto
  qed
qed

lemma eq_rows_iff:
  "eq_rows m n s this right i \<longleftrightarrow>
     (\<forall>i'. i \<le> i' \<and> i' < m \<longrightarrow> (\<forall>j<n. get s this i' j = get s right i' j))"
proof (induction m n s this right i rule: eq_rows.induct)
  case (1 m n s this right i)
  let ?row = "\<lambda>i'. \<forall>j<n. get s this i' j = get s right i' j"
  have cols: "eq_cols n s this right i 0 \<longleftrightarrow> ?row i"
    by (simp add: eq_cols_iff)
  show ?case
  proof (cases "i < m")
    case True
    show ?thesis
    proof (cases "?row i")
      case row: True
      have "(\<forall>i'. i \<le> i' \<and> i' < m \<longrightarrow> ?row i') \<longleftrightarrow> (\<forall>i'. Suc i \<le> i' \<and> i' < m \<longrightarrow> ?row i')"
        using row by (rule all_from_Suc)
      with "1.IH" True row cols show ?thesis by (subst eq_rows.simps) simp
    next
      case False
      with True cols show ?thesis by (subst eq_rows.simps) auto
    qed
  next
    case False
    then show ?thesis by (subst eq_rows.simps) auto
  qed
qed

lemma matrix_eq_iff:
  "matrix_eq m n s this right \<longleftrightarrow> (\<forall>i<m. \<forall>j<n. get s this i j = get s right i j)"
  by (simp add: matrix_eq_def eq_rows_iff)

lemma cmppred_cols_iff:
  "cmppred_cols n s this right pred i j \<longleftrightarrow>
     (\<forall>j'. j \<le> j' \<and> j' < n \<longrightarrow> pred (get s this i j') (get s right i j'))"
proof (induction n s this right pred i j rule: cmppred_cols.induct)
  case (1 n s this right pred i j)
  show ?case
  proof (cases "j < n")
    case True
    show ?thesis
    proof (cases "pred (get s this i j) (get s right i j)")
      case holds: True
      have "(\<forall>j'. j \<le> j' \<and> j' < n \<longrightarrow> pred (get s this i j') (get s right i j')) \<longleftrightarrow>
            (\<forall>j'. Suc j \<le> j' \<and> j' < n \<longrightarrow> pred (get s this i j') (get s right i j'))"
        using holds by (rule all_from_Suc)
      with "1.IH" True holds show ?thesis by (subst cmppred_cols.simps) simp
    next
      case False
      with True show ?thesis by (subst cmppred_cols.simps) auto
    qed
  next
    case False
    then show ?thesis by (subst cmppred_cols.simps) auto
  qed
qed

lemma cmppred_rows_iff:
  "cmppred_rows m n s this right pred i \<longleftrightarrow>
     (\<forall>i'. i \<le> i' \<and> i' < m \<longrightarrow> (\<forall>j<n. pred (get s this i' j) (get s right i' j)))"
proof (induction m n s this right pred i rule: cmppred_rows.induct)
  case (1 m n s this right pred i)
  let ?row = "\<lambda>i'. \<forall>j<n. pred (get s this i' j) (get s right i' j)"
  have cols: "cmppred_cols n s this right pred i 0 \<longleftrightarrow> ?row i"
    by (simp add: cmppred_cols_iff)
  show ?case
  proof (cases "i < m")
    case True
    show ?thesis
    proof (cases "?row i")
      case row: True
      have "(\<forall>i'. i \<le> i' \<and> i' < m \<longrightarrow> ?row i') \<longleftrightarrow> (\<forall>i'. Suc i \<le> i' \<and> i' < m \<longrightarrow> ?row i')"
        using row by (rule all_from_Suc)
      with "1.IH" True row cols show ?thesis by (subst cmppred_rows.simps) simp
    next
      case False
      with True cols show ?thesis by (subst cmppred_rows.simps) auto
    qed
  next
    case False
    then show ?thesis by (subst cmppred_rows.simps) auto
  qed
qed

lemma cmppred_iff:
  "cmppred m n s this right pred \<longleftrightarrow> (\<forall>i<m. \<forall>j<n. pred (get s this i j) (get s right i j))"
  by (simp add: cmppred_def cmppred_rows_iff)

section \<open>Product and sum: what the loops store\<close>

lemma matmul_frame: "a \<noteq> base dest \<Longrightarrow> matmul m n o' s left right dest a = s a"
  by (simp add: matmul_fold fold_store_cell_frame)

lemma matmul_shape: "map length (matmul m n o' s left right dest a) = map length (s a)"
  by (simp add: matmul_fold fold_store_cell_shape)

lemma matadd_frame: "a \<noteq> base dest \<Longrightarrow> matadd m n s left right dest a = s a"
  by (simp add: matadd_fold fold_store_cell_frame)


lemma matadd_written_within:
  "written_within s (matadd m n s left right dest) dest (List.product [0..<m] [0..<n])"
  by (simp only: matadd_fold fold_store_cell_written_within)

lemma matmul_dest_cells:
  fixes s :: "'a::semiring_0 store"
  assumes wf: "well_formed s dest m o'"
    and apart: "no_overlap left m n dest m o'" "no_overlap right n o' dest m o'"
    and ij: "i < m" "j < o'"
  shows "get (matmul m n o' s left right dest) dest i j = (\<Sum>k<n. get s left i k * get s right k j)"
proof -
  let ?g = "\<lambda>s i j. fold (\<lambda>k a. a + get s left i k * get s right k j) [0..<n] (0::'a)"
  let ?ps = "List.product [0..<m] [0..<o']"
  have "get (fold (store_cell ?g dest) ?ps s) dest (fst (i, j)) (snd (i, j)) = ?g s (fst (i, j)) (snd (i, j))"
  proof (rule fold_store_cell_correct [where g = ?g, OF wf cells_product(1,2)])
    show "(i, j) \<in> set ?ps"
      using ij by (rule cells_product(3))
  next
    fix before p after and s' :: "'a store"
    assume split: "?ps = before @ p # after" and w: "written_within s s' dest before"
    have valid: "set (before @ p # after) \<subseteq> {0..<m} \<times> {0..<o'}"
      using cells_product(2) [of m o'] unfolding split .
    then have p: "fst p < m" "snd p < o'" and before: "set before \<subseteq> {0..<m} \<times> {0..<o'}"
      by auto
    have "get s' left (fst p) k * get s' right k (snd p) = get s left (fst p) k * get s right k (snd p)"
      if "k \<in> set [0..<n]" for k
    proof -
      from that have k: "k < n" by simp
      have "get s' left (fst p) k = get s left (fst p) k"
        using apart(1) w before p(1) k by (rule no_overlap_unwritten)
      moreover have "get s' right k (snd p) = get s right k (snd p)"
        using apart(2) w before k p(2) by (rule no_overlap_unwritten)
      ultimately show ?thesis by simp
    qed
    then show "?g s' (fst p) (snd p) = ?g s (fst p) (snd p)"
      by (intro fold_cong) simp_all
  qed
  then show ?thesis
    by (simp only: matmul_fold fold_add_sum add_0_left fst_conv snd_conv)
qed

lemma matmul_dest:
  fixes s :: "'a::semiring_0 store"
  assumes wf: "well_formed s dest m o'"
    and apart: "base dest \<noteq> base left" "base dest \<noteq> base right"
    and ij: "i < m" "j < o'"
  shows "get (matmul m n o' s left right dest) dest i j = (\<Sum>k<n. get s left i k * get s right k j)"
proof -
  from apart have "no_overlap left m n dest m o'" "no_overlap right n o' dest m o'"
    by (auto simp add: no_overlap_def overlaps_at_def)
  with wf show ?thesis
    using ij by (rule matmul_dest_cells)
qed



section \<open>What the determinant loop computes\<close>

lemma replicate_2: "replicate 2 x = [x, x]"
  by (simp add: numeral_2_eq_2)

lemma upt_0_2: "[0..<2] = [0, 1]"
  by (simp add: numeral_2_eq_2)

lemma upt_0_3: "[0..<3] = [0, 1, 2]"
  by (simp add: numeral_3_eq_3)


lemma all_less_2: "(\<forall>i<2. P i) \<longleftrightarrow> P 0 \<and> P (1::nat)"
  by (auto simp: less_2_cases_iff)

lemma det_unfold:
  "2 \<le> n \<Longrightarrow> det n s mat =
     fst (fold (\<lambda>j (acc, plus).
            let sub = submatrix_at n n mat 1 (j + 1);
                sd = det (n - 1) s sub
            in (if plus then acc + get s mat 0 j * sd else acc - get s mat 0 j * sd, \<not> plus))
          [0..<n] (0, True))"
proof -
  assume "2 \<le> n"
  then obtain k where "n = Suc (Suc k)"
    by (metis Suc_le_D numeral_2_eq_2 Suc_le_mono)
  then show ?thesis by (simp only: det.simps)
qed

text \<open>
  The loop of \<open>det\<close> is the signed sum the claim C1 describes, over the determinants of the
  views.
\<close>

lemma det_loop:
  fixes f :: "nat \<Rightarrow> 'a::ab_group_add"
  shows "fold (\<lambda>j (acc, plus). (if plus then acc + f j else acc - f j, \<not> plus)) [0..<k] (0, True) =
           ((\<Sum>j<k. if even j then f j else - f j), even k)"
  by (induction k) simp_all

lemma det_expansion:
  fixes s :: "'a::comm_ring_1 store"
  assumes "2 \<le> n"
  shows "det n s mat =
           (\<Sum>j<n. if even j then get s mat 0 j * det (n - 1) s (submatrix_at n n mat 1 (j + 1))
                    else - (get s mat 0 j * det (n - 1) s (submatrix_at n n mat 1 (j + 1))))"
proof -
  let ?f = "\<lambda>j. get s mat 0 j * det (n - 1) s (submatrix_at n n mat 1 (j + 1))"
  have "det n s mat =
      fst (fold (\<lambda>j (acc, plus). (if plus then acc + ?f j else acc - ?f j, \<not> plus)) [0..<n] (0, True))"
    unfolding det_unfold [OF assms] Let_def by (rule refl)
  then show ?thesis
    by (simp only: det_loop fst_conv)
qed

text \<open>
  The view of round \<open>j\<close> has row \<open>a + 1\<close> of the matrix in its row \<open>a\<close>, and in its column
  \<open>b\<close> the column \<open>(b + j + 1) mod n\<close>: the columns other than \<open>j\<close>, starting after \<open>j\<close>
  and wrapping around, where the minor has them in their order.
\<close>

lemma minor_view_entry:
  assumes "a < n - 1" and "b < n - 1" and "j < n" and "n \<le> 2 ^ 63"
  shows "get s (submatrix_at n n (Basematrix x) 1 (j + 1)) a b = s x ! (a + 1) ! ((b + j + 1) mod n)"
proof -
  have "a + 1 < 2 ^ 64" "b + (j + 1) < 2 ^ 64"
    using assms by simp_all
  then have "size_t_add a 1 = a + 1" "size_t_add b (j + 1) = b + (j + 1)"
    by (simp_all only: size_t_add_small)
  moreover have "(a + 1) mod n = a + 1"
    using assms(1) by simp
  ultimately show ?thesis
    by (simp add: submatrix_at_def add.assoc)
qed

text \<open>
  For \<open>2 \<times> 2\<close> the two views are the two \<open>1 \<times> 1\<close> minors and \<open>det\<close> is the determinant
  (the repository's test takes \<open>[[7, 13], [18, 6]]\<close>).
\<close>

lemma det_2x2:
  fixes s :: "'a::comm_ring_1 store"
  shows "det 2 s mat = get s mat 0 0 * get s mat 1 1 - get s mat 0 1 * get s mat 1 0"
  by (simp add: det_unfold submatrix_at_def size_t_add_def upt_0_2)

text \<open>
  For \<open>3 \<times> 3\<close> the middle term of \<open>det\<close> has the sign of the first and the last, where
  the expansion of the specification subtracts it.
\<close>

lemma det_3x3:
  fixes s :: "'a::comm_ring_1 store"
  shows "det 3 s mat =
      get s mat 0 0 * (get s mat 1 1 * get s mat 2 2 - get s mat 1 2 * get s mat 2 1)
    + get s mat 0 1 * (get s mat 1 0 * get s mat 2 2 - get s mat 1 2 * get s mat 2 0)
    + get s mat 0 2 * (get s mat 1 0 * get s mat 2 1 - get s mat 1 1 * get s mat 2 0)"
  by (simp add: det_unfold det_2x2 submatrix_at_def size_t_add_def upt_0_3 algebra_simps
      numeral_2_eq_2 [symmetric])

lemma laplace_det_3x3:
  "laplace_det 3 [[a, b, c], [d, e, f], [g, h, i]] =
     a * (e * i - f * h) - b * (d * i - f * g) + c * (d * h - e * g)"
  by (simp add: numeral_3_eq_3 minor_def algebra_simps)

text \<open>The difference, for every dense \<open>3 \<times> 3\<close> matrix, is twice the middle term.\<close>

lemma det_3x3_error:
  fixes s :: "'a::comm_ring_1 store"
  assumes "s x = [[a, b, c], [d, e, f], [g, h, i]]"
  shows "det 3 s (Basematrix x) = laplace_det 3 (s x) + 2 * (b * (d * i - f * g))"
  by (simp add: det_3x3 laplace_det_3x3 assms algebra_simps)

text \<open>
  The views that \<open>det\<close> makes of a well-formed matrix are well-formed, so every access of
  \<open>det\<close> is inside the array.
\<close>

lemma minor_view_well_formed:
  assumes "well_formed s mat n n" and "j < n" and "n \<le> 2 ^ 63"
  shows "well_formed s (submatrix_at n n mat 1 (j + 1)) (n - 1) (n - 1)"
  using assms by (simp add: submatrix_at_def)

section \<open>The repository's tests\<close>

text \<open>
  The model passes the tests of \<^verbatim>\<open>test/matrix.cc\<close>: the sum and the product compared
  with \<^verbatim>\<open>operator==\<close>, the determinants of \<open>[[2]]\<close> and \<open>[[7, 13], [18, 6]]\<close>.
\<close>

lemma upt_0_4: "[0..<4] = [0, 1, 2, 3]"
  by (simp add: numeral_eq_Suc)

lemma all_less_3: "(\<forall>i<3. P i) \<longleftrightarrow> P 0 \<and> P 1 \<and> P (2::nat)"
proof -
  have "i < 3 \<longleftrightarrow> i = 0 \<or> i = 1 \<or> i = 2" for i :: nat
    by arith
  then show ?thesis by auto
qed

lemma all_less_4: "(\<forall>i<4. P i) \<longleftrightarrow> P 0 \<and> P 1 \<and> P 2 \<and> P (3::nat)"
proof -
  have "i < 4 \<longleftrightarrow> i = 0 \<or> i = 1 \<or> i = 2 \<or> i = 3" for i :: nat
    by arith
  then show ?thesis by auto
qed

lemma test_matadd:
  "matrix_eq 3 3 (matadd 3 3 test_store (Basematrix 0) (Basematrix 1) (Basematrix 3))
     (Basematrix 3) (Basematrix 2)"
  by (simp add: matrix_eq_iff matadd_def upt_0_3 test_store_def all_less_3)

lemma test_matmul:
  "matrix_eq 4 2 (matmul 4 3 2 test_store (Basematrix 4) (Basematrix 5) (Basematrix 7))
     (Basematrix 7) (Basematrix 6)"
  by (simp add: matrix_eq_iff matmul_def upt_0_2 upt_0_3 upt_0_4 test_store_def all_less_2 all_less_4)

lemma test_det:
  "det 1 test_store (Basematrix 9) = 2" "det 2 test_store (Basematrix 8) = 7 * 6 - 13 * 18"
  by (simp_all add: det_2x2 test_store_def)

section \<open>The determinant\<close>

text \<open>
  C9. For every element \<open>k\<close>, \<open>det\<close> of the \<open>1 \<times> 1\<close> matrix \<open>[[k]]\<close> is \<open>k\<close>: the
  overload for \<open>1 \<times> 1\<close> returns the element and takes the determinant of no view. This
  holds of a dense matrix and, read as \<open>get\<close> at \<open>(0, 0)\<close>, of every \<open>1 \<times> 1\<close> matrix.
\<close>

theorem det_1x1: "det 1 (s(a := [[k]])) (Basematrix a) = k \<and> det 1 s mat = get s mat 0 0"
  by simp

text \<open>
  C1. \<open>det\<close> does run the loop the claim describes, but its result is not the determinant.
  On the \<open>3 \<times> 3\<close> matrix that exchanges the first two coordinates \<open>det\<close> returns \<open>1\<close>,
  and the expansion along the first row with the minors of the specification gives
  \<open>- 1\<close>. The view with offset \<open>(1, j + 1)\<close> lists the columns
  \<open>j + 1, \<dots>, n - 1, 0, \<dots>, j - 1\<close>: for \<open>n = 3\<close> and \<open>j = 1\<close> these are the columns
  \<open>2, 0\<close>, the minor with its two columns exchanged, whose determinant has the opposite
  sign.
\<close>

theorem det_3x3_not_determinant:
  "det 3 example_store (Basematrix 8) = 1 \<and> laplace_det 3 (example_store 8) = - 1"
proof
  show "det 3 example_store (Basematrix 8) = 1"
    by (simp add: det_3x3 example_store_def)
  show "laplace_det 3 (example_store 8) = - 1"
    by (simp add: laplace_det_3x3 example_store_def)
qed

section \<open>The inverse\<close>

text \<open>The store is returned as it was given: \<^verbatim>\<open>inverse\<close> writes neither \<open>dest\<close> nor \<open>src\<close>.\<close>

lemma inverse_m_store: "fst (inverse_m n s src dest) = s"
  by (simp add: inverse_m_def)

text \<open>
  C2. \<^verbatim>\<open>inverse\<close> is documented to return \<^verbatim>\<open>true\<close> if \<open>src\<close> is singular. For the
  \<open>2 \<times> 2\<close> zero matrix, which is singular (its \<open>det\<close> is \<open>0\<close>), the code returns \<^verbatim>\<open>false\<close>,
  which under the documented convention reports a matrix that is not singular: the
  singular case is not reported, against the claim and against the documentation. The
  store is returned unchanged, as the claim says.
\<close>

theorem inverse_m_singular_not_reported:
  "det 2 example_store (Basematrix 3) = 0 \<and>
   inverse_m 2 example_store (Basematrix 3) (Basematrix 4) = (example_store, False) \<and>
   \<not> reports_singular (snd (inverse_m 2 example_store (Basematrix 3) (Basematrix 4)))"
  by (simp add: det_2x2 inverse_m_def reports_singular_def example_store_def)

section \<open>Views\<close>

text \<open>Both methods of a view delegate to the parent, whatever the parent is.\<close>

lemma submatrix_delegates:
  "get s (submatrix_at M N parent oi oj) i j =
     get s parent (size_t_add i oi mod M) (size_t_add j oj mod N)"
  "set_m s (submatrix_at M N parent oi oj) i j v =
     set_m s parent (size_t_add i oi mod M) (size_t_add j oj mod N) v"
  by (simp_all add: submatrix_at_def)

text \<open>
  C3, as the claim states it, fails in its last part when two coordinates of the parent
  are one cell. The parent may be a view larger than its own parent: over the dense
  \<open>1 \<times> 1\<close> matrix \<open>[[5]]\<close> the \<open>2 \<times> 2\<close> view \<^verbatim>\<open>submatrix<int, 2, 2, 1, 1>\<close> reads the one
  element at all four coordinates, and a write through a view of that view at \<open>(0, 0)\<close>
  changes what the parent holds at \<open>(1, 1)\<close>. Or the parent may be a view whose index sum
  wraps around: over the dense \<open>3 \<times> 1\<close> matrix \<open>[[1], [2], [3]]\<close> the \<open>2 \<times> 1\<close> view with
  row offset \<open>2 ^ 64 - 1\<close> reads row \<open>0\<close> at both of its rows.
\<close>

theorem submatrix_set_counterexample:
  "get (fst (set_m example_store
               (submatrix_at 2 2 (submatrix_at 1 1 (Basematrix 7) 0 0) 0 0) 0 0 9))
     (submatrix_at 1 1 (Basematrix 7) 0 0) 1 1 = 9 \<and>
   get example_store (submatrix_at 1 1 (Basematrix 7) 0 0) 1 1 = 5 \<and>
   get (fst (set_m example_store
               (submatrix_at 2 1 (submatrix_at 3 1 (Basematrix 11) 18446744073709551615 0) 0 0) 0 0 9))
     (submatrix_at 3 1 (Basematrix 11) 18446744073709551615 0) 1 0 = 9 \<and>
   get example_store (submatrix_at 3 1 (Basematrix 11) 18446744073709551615 0) 1 0 = 1"
  by (simp add: submatrix_at_def size_t_add_def example_store_def)

text \<open>
  C3, amended. For every view with offset \<open>(oi, oj)\<close> over a well-formed \<open>M \<times> N\<close> parent
  with \<open>M, N > 0\<close> (a dense matrix, or a chain of views none of which is larger than its
  parent or has an index sum that wraps around) and all indices \<open>i\<close>, \<open>j\<close>: \<open>get\<close> of
  the view is \<open>get\<close> of the parent at
  \<open>((i + oi) mod M, (j + oj) mod N)\<close>, the sums being those of \<^verbatim>\<open>size_t\<close>; \<open>set\<close> of the
  view is \<open>set\<close> of the parent at that coordinate, after which the parent holds \<open>v\<close>
  there and what it held before at every other coordinate.
\<close>

theorem submatrix_get_set:
  assumes "well_formed s parent M N" and "0 < M" and "0 < N"
  shows "get s (submatrix_at M N parent oi oj) i j =
           get s parent (size_t_add i oi mod M) (size_t_add j oj mod N) \<and>
         set_m s (submatrix_at M N parent oi oj) i j v =
           set_m s parent (size_t_add i oi mod M) (size_t_add j oj mod N) v \<and>
         get (fst (set_m s (submatrix_at M N parent oi oj) i j v)) parent
           (size_t_add i oi mod M) (size_t_add j oj mod N) = v \<and>
         (\<forall>a<M. \<forall>b<N. (a, b) \<noteq> (size_t_add i oi mod M, size_t_add j oj mod N) \<longrightarrow>
            get (fst (set_m s (submatrix_at M N parent oi oj) i j v)) parent a b = get s parent a b)"
proof -
  let ?ci = "size_t_add i oi mod M" and ?cj = "size_t_add j oj mod N"
  have in_range: "?ci < M" "?cj < N"
    using assms(2,3) by simp_all
  have stored: "get (fst (set_m s parent ?ci ?cj v)) parent ?ci ?cj = v"
    using assms(1) in_range by (rule get_set_m_same)
  have others: "get (fst (set_m s parent ?ci ?cj v)) parent a b = get s parent a b"
    if "a < M" "b < N" "(a, b) \<noteq> (?ci, ?cj)" for a b
    using assms(1) in_range that by (rule get_set_m_other)
  show ?thesis
    using stored others by (simp add: submatrix_at_def)
qed

theorem submatrix_get_set_witness:
  "well_formed example_store (Basematrix 0) 2 2 \<and>
   get example_store (submatrix_at 2 2 (Basematrix 0) 1 1) 0 1 = 3 \<and>
   get (fst (set_m example_store (submatrix_at 2 2 (Basematrix 0) 1 1) 0 1 9)) (Basematrix 0) 1 0 = 9 \<and>
   get (fst (set_m example_store (submatrix_at 2 2 (Basematrix 0) 1 1) 0 1 9)) (Basematrix 0) 0 0 = 1"
proof -
  have wf: "well_formed example_store (Basematrix 0) 2 2"
    by (simp add: example_store_def replicate_2)
  show ?thesis
    using wf submatrix_get_set [OF wf, where oi = 1 and oj = 1 and i = 0 and j = 1 and v = 9]
    by (simp add: example_store_def size_t_add_def)
qed

section \<open>Comparison\<close>

text \<open>
  C8. For all \<open>m \<times> n\<close> matrices \<open>A\<close> and \<open>B\<close>, the equality operation returns true if and
  only if \<open>A.get(i, j) = B.get(i, j)\<close> at every valid index, and for every binary predicate
  \<open>pred\<close> the comparison \<open>cmppred\<close> returns true if and only if \<open>pred\<close> holds of
  \<open>A.get(i, j)\<close> and \<open>B.get(i, j)\<close> at every valid index.
\<close>

theorem comparison_iff:
  "(matrix_eq m n s A B \<longleftrightarrow> (\<forall>i<m. \<forall>j<n. get s A i j = get s B i j)) \<and>
   (cmppred m n s A B pred \<longleftrightarrow> (\<forall>i<m. \<forall>j<n. pred (get s A i j) (get s B i j)))"
  by (simp add: matrix_eq_iff cmppred_iff)

theorem comparison_iff_witness:
  "matrix_eq 2 2 example_store (Basematrix 3) (Basematrix 4) \<and>
   \<not> matrix_eq 2 2 example_store (Basematrix 0) (Basematrix 1) \<and>
   cmppred 2 2 example_store (Basematrix 1) (Basematrix 0) (\<lambda>x y. x < y + 2) \<and>
   \<not> cmppred 2 2 example_store (Basematrix 0) (Basematrix 1) (\<lambda>x y. x < y + 2)"
  using comparison_iff [of 2 2 example_store "Basematrix 3" "Basematrix 4" "\<lambda>x y. x < y + 2"]
    comparison_iff [of 2 2 example_store "Basematrix 0" "Basematrix 1" "\<lambda>x y. x < y + 2"]
    comparison_iff [of 2 2 example_store "Basematrix 1" "Basematrix 0" "\<lambda>x y. x < y + 2"]
  by (simp add: example_store_def all_less_2)

section \<open>The product\<close>




section \<open>The sum in place\<close>




section \<open>The round trip through a view\<close>

lemma elements_eqI:
  assumes "map length xs = replicate m n" and "map length ys = replicate m n"
    and "\<And>i j. i < m \<Longrightarrow> j < n \<Longrightarrow> xs ! i ! j = ys ! i ! j"
  shows "xs = ys"
proof (rule nth_equalityI)
  from assms(1,2) have len: "length xs = m" "length ys = m"
    by (metis length_map length_replicate)+
  then show "length xs = length ys" by simp
  fix i
  assume "i < length xs"
  with len have i: "i < m" by simp
  with len assms(1,2) have rows: "length (xs ! i) = n" "length (ys ! i) = n"
    by (metis nth_map nth_replicate)+
  show "xs ! i = ys ! i"
  proof (rule nth_equalityI)
    show "length (xs ! i) = length (ys ! i)" using rows by simp
    fix j
    assume "j < length (xs ! i)"
    with rows have "j < n" by simp
    with i show "xs ! i ! j = ys ! i ! j" by (rule assms(3))
  qed
qed

lemma basematrix_of_submatrix_get:
  assumes "well_formed s (Basematrix this) m n" and "base other \<noteq> this" and "i < m" and "j < n"
  shows "get (basematrix_of_submatrix m n s this other) (Basematrix this) i j = get s other i j"
proof -
  let ?g = "\<lambda>s i j. get s other i j"
  have "get (fold (store_cell ?g (Basematrix this)) (List.product [0..<m] [0..<n]) s)
          (Basematrix this) (fst (i, j)) (snd (i, j)) = ?g s (fst (i, j)) (snd (i, j))"
  proof (rule fold_store_cell_correct [where g = ?g, OF assms(1) cells_product(1,2)])
    show "(i, j) \<in> set (List.product [0..<m] [0..<n])"
      using assms(3,4) by (rule cells_product(3))
  next
    fix before :: "(nat \<times> nat) list" and p :: "nat \<times> nat" and s' :: "'a store"
    assume "written_within s s' (Basematrix this) before"
    with assms(2) have "s' (base other) = s (base other)"
      by (simp add: written_within_def)
    then show "?g s' (fst p) (snd p) = ?g s (fst p) (snd p)" by (rule get_frame)
  qed
  then show ?thesis by (simp only: basematrix_of_submatrix_fold fst_conv snd_conv)
qed

lemma basematrix_of_submatrix_frame:
  "a \<noteq> this \<Longrightarrow> basematrix_of_submatrix m n s this other a = s a"
  by (simp add: basematrix_of_submatrix_fold fold_store_cell_frame)

lemma basematrix_of_submatrix_shape:
  "map length (basematrix_of_submatrix m n s this other a) = map length (s a)"
  by (simp add: basematrix_of_submatrix_fold fold_store_cell_shape)

text \<open>
  C7. For every \<open>m \<times> n\<close> dense matrix \<open>P\<close>, the view over \<open>P\<close> with offset \<open>0\<close> and the
  extents \<open>(m, n)\<close>, given to the constructor of a dense matrix, yields a dense matrix
  whose every entry is the entry of \<open>P\<close>; the arrays are equal and \<open>P\<close> is unchanged.
  The hypotheses say what the types say: both arrays are \<open>m \<times> n\<close>, the new matrix is
  another object than \<open>P\<close>, and the extents are values of \<^verbatim>\<open>size_t\<close>.
\<close>

theorem round_trip:
  assumes "well_formed s (Basematrix p) m n" and "well_formed s (Basematrix this) m n"
    and "this \<noteq> p" and "m \<le> 2 ^ 64" and "n \<le> 2 ^ 64"
  shows "basematrix_of_submatrix m n s this (submatrix m n (Basematrix p)) this = s p \<and>
         (\<forall>i<m. \<forall>j<n.
            get (basematrix_of_submatrix m n s this (submatrix m n (Basematrix p))) (Basematrix this) i j =
            get s (Basematrix p) i j) \<and>
         basematrix_of_submatrix m n s this (submatrix m n (Basematrix p)) p = s p"
proof -
  let ?view = "submatrix m n (Basematrix p)"
  let ?s' = "basematrix_of_submatrix m n s this ?view"
  have apart: "base ?view \<noteq> this"
    using assms(3) by (simp add: submatrix_def)
  have view: "get s ?view i j = get s (Basematrix p) i j" if "i < m" "j < n" for i j
    using that assms(4,5) by (simp add: submatrix_def size_t_add_def)
  have entries: "get ?s' (Basematrix this) i j = get s (Basematrix p) i j" if "i < m" "j < n" for i j
    using basematrix_of_submatrix_get [OF assms(2) apart that] view [OF that] by simp
  have "?s' this = s p"
  proof (rule elements_eqI)
    show "map length (?s' this) = replicate m n"
      using assms(2) by (simp add: basematrix_of_submatrix_shape)
    show "map length (s p) = replicate m n"
      using assms(1) by simp
    show "?s' this ! i ! j = s p ! i ! j" if "i < m" "j < n" for i j
      using entries [OF that] by simp
  qed
  moreover have "?s' p = s p"
    using assms(3) by (simp add: basematrix_of_submatrix_frame)
  ultimately show ?thesis using entries by simp
qed

theorem round_trip_witness:
  "well_formed example_store (Basematrix 0) 2 2 \<and> well_formed example_store (Basematrix 3) 2 2 \<and>
   basematrix_of_submatrix 2 2 example_store 3 (submatrix 2 2 (Basematrix 0)) 3 = [[1, 2], [3, 4]]"
proof -
  have wf: "well_formed example_store (Basematrix 0) 2 2" "well_formed example_store (Basematrix 3) 2 2"
    by (simp_all add: example_store_def replicate_2)
  have rest: "(3::nat) \<noteq> 0" "(2::nat) \<le> 2 ^ 64"
    by simp_all
  show ?thesis
    using wf round_trip [OF wf rest(1) rest(2) rest(2)]
    by (simp add: example_store_def)
qed

section \<open>Associativity of the product\<close>

lemma sum_assoc:
  fixes A B C :: "nat \<Rightarrow> nat \<Rightarrow> 'a::semiring_0"
  shows "(\<Sum>l<o'. (\<Sum>k<n. A i k * B k l) * C l j) = (\<Sum>k<n. A i k * (\<Sum>l<o'. B k l * C l j))"
proof -
  have "(\<Sum>l<o'. (\<Sum>k<n. A i k * B k l) * C l j) = (\<Sum>l<o'. \<Sum>k<n. A i k * (B k l * C l j))"
    by (simp add: sum_distrib_right mult.assoc)
  also have "\<dots> = (\<Sum>k<n. \<Sum>l<o'. A i k * (B k l * C l j))"
    by (rule sum.swap)
  also have "\<dots> = (\<Sum>k<n. A i k * (\<Sum>l<o'. B k l * C l j))"
    by (simp add: sum_distrib_left)
  finally show ?thesis .
qed

text \<open>
  C6. For all conforming dense matrices \<open>A\<close> (\<open>m \<times> n\<close>), \<open>B\<close> (\<open>n \<times> o\<close>), \<open>C\<close>
  (\<open>o \<times> p\<close>) over a semiring (exact arithmetic, the integers among them), the product of
  \<open>A B\<close> with \<open>C\<close> and the product of \<open>A\<close> with \<open>B C\<close> are equal at every entry. Each
  product is \<open>matmul\<close> into a dense matrix of its extents that is none of its operands and
  none of the matrices still to be read, as a newly made result is.
\<close>

theorem matmul_assoc:
  fixes s :: "'a::semiring_0 store"
  assumes "well_formed s (Basematrix ab) m o'" and "well_formed s (Basematrix abc) m p"
    and "well_formed s (Basematrix bc) n p" and "well_formed s (Basematrix a_bc) m p"
    and "ab \<notin> {a, b, c}" and "abc \<notin> {ab, c}" and "bc \<notin> {a, b, c}" and "a_bc \<notin> {a, bc}"
  shows "\<forall>i<m. \<forall>j<p.
           get (matmul m o' p (matmul m n o' s (Basematrix a) (Basematrix b) (Basematrix ab))
                  (Basematrix ab) (Basematrix c) (Basematrix abc)) (Basematrix abc) i j =
           get (matmul m n p (matmul n o' p s (Basematrix b) (Basematrix c) (Basematrix bc))
                  (Basematrix a) (Basematrix bc) (Basematrix a_bc)) (Basematrix a_bc) i j"
proof (intro allI impI)
  fix i j
  assume ij: "i < m" "j < p"
  let ?A = "Basematrix a" and ?B = "Basematrix b" and ?C = "Basematrix c"
  let ?AB = "Basematrix ab" and ?BC = "Basematrix bc"
  let ?s1 = "matmul m n o' s ?A ?B ?AB"
  let ?s3 = "matmul n o' p s ?B ?C ?BC"
  have ab: "get ?s1 ?AB i l = (\<Sum>k<n. get s ?A i k * get s ?B k l)" if "l < o'" for l
    using assms(1,5) ij(1) that by (intro matmul_dest) simp_all
  have c1: "get ?s1 ?C l j = get s ?C l j" for l
    using assms(5) by (simp add: matmul_frame)
  have "get (matmul m o' p ?s1 ?AB ?C (Basematrix abc)) (Basematrix abc) i j =
        (\<Sum>l<o'. get ?s1 ?AB i l * get ?s1 ?C l j)"
    using assms(2,6) ij by (intro matmul_dest) (simp_all add: matmul_shape)
  also have "\<dots> = (\<Sum>l<o'. (\<Sum>k<n. get s ?A i k * get s ?B k l) * get s ?C l j)"
    using ab c1 by simp
  also have "\<dots> = (\<Sum>k<n. get s ?A i k * (\<Sum>l<o'. get s ?B k l * get s ?C l j))"
    by (rule sum_assoc)
  finally have left: "get (matmul m o' p ?s1 ?AB ?C (Basematrix abc)) (Basematrix abc) i j =
      (\<Sum>k<n. get s ?A i k * (\<Sum>l<o'. get s ?B k l * get s ?C l j))" .
  have bc: "get ?s3 ?BC k j = (\<Sum>l<o'. get s ?B k l * get s ?C l j)" if "k < n" for k
    using assms(3,7) ij(2) that by (intro matmul_dest) simp_all
  have a3: "get ?s3 ?A i k = get s ?A i k" for k
    using assms(7) by (simp add: matmul_frame)
  have "get (matmul m n p ?s3 ?A ?BC (Basematrix a_bc)) (Basematrix a_bc) i j =
        (\<Sum>k<n. get ?s3 ?A i k * get ?s3 ?BC k j)"
    using assms(4,8) ij by (intro matmul_dest) (simp_all add: matmul_shape)
  also have "\<dots> = (\<Sum>k<n. get s ?A i k * (\<Sum>l<o'. get s ?B k l * get s ?C l j))"
    using bc a3 by simp
  finally show "get (matmul m o' p ?s1 ?AB ?C (Basematrix abc)) (Basematrix abc) i j =
      get (matmul m n p ?s3 ?A ?BC (Basematrix a_bc)) (Basematrix a_bc) i j"
    using left by simp
qed

theorem matmul_assoc_witness:
  "well_formed example_store (Basematrix 3) 2 2 \<and> well_formed example_store (Basematrix 4) 2 2 \<and>
   well_formed example_store (Basematrix 5) 2 2 \<and> well_formed example_store (Basematrix 6) 2 2 \<and>
   get (matmul 2 2 2 (matmul 2 2 2 example_store (Basematrix 0) (Basematrix 1) (Basematrix 3))
          (Basematrix 3) (Basematrix 2) (Basematrix 4)) (Basematrix 4) 0 1 =
   get (matmul 2 2 2 (matmul 2 2 2 example_store (Basematrix 1) (Basematrix 2) (Basematrix 5))
          (Basematrix 0) (Basematrix 5) (Basematrix 6)) (Basematrix 6) 0 1"
proof -
  have wf: "well_formed example_store (Basematrix 3) 2 2" "well_formed example_store (Basematrix 4) 2 2"
    "well_formed example_store (Basematrix 5) 2 2" "well_formed example_store (Basematrix 6) 2 2"
    by (simp_all add: example_store_def replicate_2)
  have fresh: "(3::nat) \<notin> {0, 1, 2}" "(4::nat) \<notin> {3, 2}" "(5::nat) \<notin> {0, 1, 2}" "(6::nat) \<notin> {0, 5}"
    by simp_all
  show ?thesis
    using wf matmul_assoc [OF wf fresh]
    by (simp add: all_less_2)
qed

section \<open>Independence of the representation\<close>






end
